theory Spec2Isabelle
  imports Complex_Main
begin

section \<open>The observability gateway: target registry, log ring, health aggregator\<close>

text \<open>
  A shallow embedding of \<^verbatim>\<open>src/services/gateway/src/index.js\<close>. JavaScript strings are
  modelled as \<^typ>\<open>string\<close>, one \<^typ>\<open>char\<close> per code unit, restricted to code units
  below 256. Exceptions are values of \<open>error + 'a\<close>. The module-level array
  \<^verbatim>\<open>logsBuffer\<close> lives in an explicit store of arrays, because the log listing copies
  it and reverses the copy in place. The clock, the answers of \<^verbatim>\<open>axios.get\<close> and the
  order in which the pending requests settle are inputs of the model.
\<close>

subsection \<open>JavaScript string primitives\<close>

text \<open>
  \<^verbatim>\<open>String.prototype.split(sep)\<close> with a one-character separator: the pieces between the
  occurrences of the separator, empty pieces included; the empty string gives one empty
  piece, so the result is never the empty array (the first branch of the \<open>case\<close> below is
  never taken).
\<close>

primrec split_on :: "char \<Rightarrow> string \<Rightarrow> string list" where
  "split_on c [] = [[]]"
| "split_on c (x # xs) =
     (case split_on c xs of
        [] \<Rightarrow> []
      | w # ws \<Rightarrow> if x = c then [] # w # ws else (x # w) # ws)"

text \<open>
  The white space and line terminators that \<^verbatim>\<open>String.prototype.trim\<close> strips, among the
  code units below 256: TAB, LF, VT, FF, CR, SPACE and NO-BREAK SPACE.
\<close>

definition is_ws :: "char \<Rightarrow> bool" where
  "is_ws c \<longleftrightarrow> c \<in> set [CHR 0x09, CHR 0x0A, CHR 0x0B, CHR 0x0C, CHR 0x0D, CHR 0x20, CHR 0xA0]"

definition trim :: "string \<Rightarrow> string" where
  "trim s = rev (dropWhile is_ws (rev (dropWhile is_ws s)))"

text \<open>\<^verbatim>\<open>Boolean(s)\<close> on a string: every string but the empty one is truthy.\<close>

definition truthy :: "string \<Rightarrow> bool" where
  "truthy s \<longleftrightarrow> s \<noteq> []"

subsection \<open>Target registry\<close>

text \<open>
  \<^verbatim>\<open>
  const parsedTargets = SERVICE_TARGETS.split(",")
    .filter(Boolean)
    .map((pair) => {
      const [name, url] = pair.split("=");
      return { name: name.trim(), baseUrl: url.trim() };
    });
  \<close>
  The destructuring binds \<^verbatim>\<open>name\<close> to the first piece and \<^verbatim>\<open>url\<close> to the second; the
  pieces after the second are bound to nothing. With a single piece \<^verbatim>\<open>url\<close> is
  \<^verbatim>\<open>undefined\<close> and \<^verbatim>\<open>url.trim()\<close> throws a TypeError, which leaves the callback, the
  \<^verbatim>\<open>map\<close> and the module.
\<close>

datatype error = TypeError

record target =
  name :: string
  baseUrl :: string

definition parse_pair :: "string \<Rightarrow> error + target" where
  "parse_pair pair =
     (case split_on CHR ''='' pair of
        [] \<Rightarrow> Inl TypeError
      | [nm] \<Rightarrow> Inl TypeError
      | nm # ur # _ \<Rightarrow> Inr \<lparr>name = trim nm, baseUrl = trim ur\<rparr>)"

text \<open>\<^verbatim>\<open>Array.prototype.map\<close> with a callback that may throw: the first throw ends the map.\<close>

fun map_throwing :: "('a \<Rightarrow> error + 'b) \<Rightarrow> 'a list \<Rightarrow> error + 'b list" where
  "map_throwing f [] = Inr []"
| "map_throwing f (x # xs) =
     (case f x of
        Inl e \<Rightarrow> Inl e
      | Inr y \<Rightarrow> (case map_throwing f xs of Inl e \<Rightarrow> Inl e | Inr ys \<Rightarrow> Inr (y # ys)))"

definition parsedTargets :: "string \<Rightarrow> error + target list" where
  "parsedTargets raw =
     map_throwing parse_pair (filter truthy (split_on CHR '','' raw))"

text \<open>
  \<^verbatim>\<open>process.env.SERVICE_TARGETS || "users=http://users-service:4001"\<close>: an unset or empty
  variable gives the default.
\<close>

definition SERVICE_TARGETS :: "string option \<Rightarrow> string" where
  "SERVICE_TARGETS env =
     (case env of
        None \<Rightarrow> ''users=http://users-service:4001''
      | Some s \<Rightarrow> if truthy s then s else ''users=http://users-service:4001'')"

subsection \<open>Log ring\<close>

text \<open>
  Instants are milliseconds since the epoch; a \<open>timestamp\<close> stands for the ISO-8601
  string that \<^verbatim>\<open>new Date().toISOString()\<close> renders of the instant.
\<close>

type_synonym timestamp = int

record log_entry =
  ts :: timestamp
  level :: string
  service :: string
  msg :: string

text \<open>The argument of \<^verbatim>\<open>addLog\<close>: an object whose fields may each be omitted.\<close>

record entry =
  level :: "string option"
  service :: "string option"
  msg :: "string option"

text \<open>
  \<^verbatim>\<open>x || d\<close> on a field of the argument of \<^verbatim>\<open>addLog\<close>, which every call in the module
  gives as a string or leaves out: \<^verbatim>\<open>undefined\<close> and the empty string give \<open>d\<close>.
\<close>

definition or_default :: "string option \<Rightarrow> string \<Rightarrow> string" where
  "or_default x d = (case x of None \<Rightarrow> d | Some s \<Rightarrow> if truthy s then s else d)"

text \<open>
  The store: arrays of log entries by address, and the next free address. An array
  literal or a spread allocates at \<open>next_addr\<close>; \<^verbatim>\<open>push\<close>, \<^verbatim>\<open>shift\<close> and \<^verbatim>\<open>reverse\<close>
  change an array in place. \<^verbatim>\<open>shift\<close> on an empty array changes nothing.
\<close>

type_synonym addr = nat

record heap =
  arrays :: "addr \<Rightarrow> log_entry list"
  next_addr :: addr

definition array_push :: "addr \<Rightarrow> log_entry \<Rightarrow> heap \<Rightarrow> heap" where
  "array_push a x h = h\<lparr>arrays := (arrays h)(a := arrays h a @ [x])\<rparr>"

definition array_shift :: "addr \<Rightarrow> heap \<Rightarrow> heap" where
  "array_shift a h = h\<lparr>arrays := (arrays h)(a := tl (arrays h a))\<rparr>"

definition array_length :: "addr \<Rightarrow> heap \<Rightarrow> nat" where
  "array_length a h = length (arrays h a)"

definition array_spread :: "addr \<Rightarrow> heap \<Rightarrow> addr \<times> heap" where
  "array_spread a h =
     (next_addr h,
      h\<lparr>arrays := (arrays h)(next_addr h := arrays h a), next_addr := Suc (next_addr h)\<rparr>)"

definition array_reverse :: "addr \<Rightarrow> heap \<Rightarrow> heap" where
  "array_reverse a h = h\<lparr>arrays := (arrays h)(a := rev (arrays h a))\<rparr>"

text \<open>
  \<^verbatim>\<open>
  const logsBuffer = [];
  const MAX_LOGS = 200;
  \<close>
  The module allocates \<^verbatim>\<open>logsBuffer\<close> first, at address 0.
\<close>

definition logsBuffer :: addr where
  "logsBuffer = 0"

definition MAX_LOGS :: nat where
  "MAX_LOGS = 200"

definition initial_heap :: heap where
  "initial_heap = \<lparr>arrays = (\<lambda>_. []), next_addr = 1\<rparr>"

text \<open>
  \<^verbatim>\<open>
  function addLog(entry) {
    logsBuffer.push({
      ts: new Date().toISOString(),
      level: entry.level || "info",
      service: entry.service || "gateway",
      msg: entry.msg || ""
    });
    if (logsBuffer.length > MAX_LOGS) {
      logsBuffer.shift();
    }
  }
  \<close>
  \<open>now\<close> is the reading of the clock. Every call in the module passes an object, so
  reading the fields does not throw, and nothing else in the body can.
\<close>

definition stamp :: "timestamp \<Rightarrow> entry \<Rightarrow> log_entry" where
  "stamp now e =
     \<lparr>ts = now,
      log_entry.level = or_default (entry.level e) ''info'',
      log_entry.service = or_default (entry.service e) ''gateway'',
      log_entry.msg = or_default (entry.msg e) ''''\<rparr>"

definition addLog :: "timestamp \<Rightarrow> entry \<Rightarrow> heap \<Rightarrow> heap" where
  "addLog now e h =
     (let h1 = array_push logsBuffer (stamp now e) h
      in if array_length logsBuffer h1 > MAX_LOGS then array_shift logsBuffer h1 else h1)"

text \<open>A sequence of calls of \<^verbatim>\<open>addLog\<close>, each with the clock reading it finds.\<close>

fun addLog_calls :: "(timestamp \<times> entry) list \<Rightarrow> heap \<Rightarrow> heap" where
  "addLog_calls [] h = h"
| "addLog_calls ((now, e) # calls) h = addLog_calls calls (addLog now e h)"

text \<open>
  \<^verbatim>\<open>
  app.get("/obs/logs", (req, res) => {
    const items = [...logsBuffer].reverse();
    res.json({ items });
  });
  \<close>
  \<open>snapshot\<close> is the first statement: it returns the address bound to \<^verbatim>\<open>items\<close>.
  \<open>obs_logs\<close> is the handler: it returns the entries serialised in the response.
\<close>

definition snapshot :: "heap \<Rightarrow> addr \<times> heap" where
  "snapshot h =
     (let (items, h1) = array_spread logsBuffer h
      in (items, array_reverse items h1))"

definition obs_logs :: "heap \<Rightarrow> log_entry list \<times> heap" where
  "obs_logs h = (let (items, h') = snapshot h in (arrays h' items, h'))"

subsection \<open>Health aggregator\<close>

text \<open>
  The decimal rendering of an integer inside a template literal, as in
  \<^verbatim>\<open>`(${durationMs}ms)`\<close>.
\<close>

definition digit :: "nat \<Rightarrow> char" where
  "digit d = ''0123456789'' ! d"

fun show_nat :: "nat \<Rightarrow> string" where
  "show_nat n =
     (if n < 10 then [digit n]
      else show_nat (n div 10) @ [digit (n mod 10)])"

declare show_nat.simps [simp del]

definition show_int :: "int \<Rightarrow> string" where
  "show_int i = (if i < 0 then CHR ''-'' # show_nat (nat (- i)) else show_nat (nat i))"

text \<open>
  JavaScript values, as far as a response body can hold them. A number is a finite
  double, given by its value (the two zeros are not told apart), or an infinity (\<open>True\<close>
  for the positive one), or NaN. An object is the list of its own properties, each key
  once. \<open>ToBoolean\<close> is the truthiness that \<^verbatim>\<open>||\<close> tests: \<^verbatim>\<open>undefined\<close>, \<^verbatim>\<open>null\<close>,
  \<^verbatim>\<open>false\<close>, zero, NaN and the empty string are falsy, everything else is truthy.
\<close>

datatype js_number = Finite rat | Infinity bool | NaN

datatype js_value =
    JUndefined
  | JNull
  | JBoolean bool
  | JNumber js_number
  | JString string
  | JArray "js_value list"
  | JObject "(string \<times> js_value) list"

fun ToBoolean :: "js_value \<Rightarrow> bool" where
  "ToBoolean JUndefined = False"
| "ToBoolean JNull = False"
| "ToBoolean (JBoolean b) = b"
| "ToBoolean (JNumber (Finite q)) = (q \<noteq> 0)"
| "ToBoolean (JNumber (Infinity _)) = True"
| "ToBoolean (JNumber NaN) = False"
| "ToBoolean (JString s) = (s \<noteq> [])"
| "ToBoolean (JArray _) = True"
| "ToBoolean (JObject _) = True"

text \<open>\<^verbatim>\<open>x || d\<close>: \<open>x\<close> itself when it is truthy, \<open>d\<close> otherwise.\<close>

definition js_or :: "js_value \<Rightarrow> js_value \<Rightarrow> js_value" where
  "js_or x d = (if ToBoolean x then x else d)"

text \<open>
  \<^verbatim>\<open>data?.status\<close>: \<^verbatim>\<open>undefined\<close> when \<open>data\<close> is \<^verbatim>\<open>undefined\<close> or \<^verbatim>\<open>null\<close>, and the
  property \<open>status\<close> otherwise. An object has it when it is among its own properties
  (\<^verbatim>\<open>Object.prototype\<close> has none of that name); a string, a number, a boolean and an
  array of a parsed body have none.
\<close>

fun optional_status :: "js_value \<Rightarrow> js_value" where
  "optional_status (JObject ps) =
     (case map_of ps ''status'' of None \<Rightarrow> JUndefined | Some v \<Rightarrow> v)"
| "optional_status _ = JUndefined"

text \<open>
  What the world does to one probe. \<open>started\<close> is \<^verbatim>\<open>Date.now()\<close> before the request;
  \<open>response\<close> is how the promise of \<^verbatim>\<open>axios.get(`${svc.baseUrl}/health`, { timeout: 2000 })\<close>
  settles: resolved with a response whose \<^verbatim>\<open>data\<close> is the given value, or rejected with
  an error whose \<^verbatim>\<open>message\<close> is the given string. Which requests axios rejects (timeout,
  refused connection, status outside 2xx) and what it puts into \<^verbatim>\<open>data\<close> is decided in
  axios: with its defaults, the parsed JSON of the body, and the body itself as a string
  when it is not JSON (the empty string for an empty body). \<open>settled\<close> is \<^verbatim>\<open>Date.now()\<close>
  when the continuation runs, \<open>log_ts\<close> the clock read inside \<^verbatim>\<open>addLog\<close>, and \<open>check_ts\<close>
  the clock read for \<^verbatim>\<open>lastCheck\<close>.
\<close>

datatype axios_result = Resolved js_value | Rejected string

record probe_env =
  started :: int
  response :: axios_result
  settled :: int
  log_ts :: timestamp
  check_ts :: timestamp

record health_outcome =
  name :: string
  url :: string
  status :: js_value
  latencyMs :: int
  error :: "string option"
  lastCheck :: timestamp

text \<open>
  The body of the async callback after \<^verbatim>\<open>await\<close>: the \<^verbatim>\<open>try\<close> branch when the request
  resolved, the \<^verbatim>\<open>catch\<close> branch when it was rejected.
  \<^verbatim>\<open>
        const r = await axios.get(`${svc.baseUrl}/health`, { timeout: 2000 });
        const durationMs = Date.now() - start;
        addLog({ level: "info", service: svc.name, msg: `Healthcheck ok (${durationMs}ms)` });
        return { name: svc.name, url: svc.baseUrl, status: r.data?.status || "unknown",
                 latencyMs: durationMs, lastCheck: new Date().toISOString() };
      } catch (err) {
        const durationMs = Date.now() - start;
        addLog({ level: "error", service: svc.name,
                 msg: `Healthcheck failed (${durationMs}ms): ${err.message}` });
        return { name: svc.name, url: svc.baseUrl, status: "down", latencyMs: durationMs,
                 error: err.message, lastCheck: new Date().toISOString() };
      }
  \<close>
\<close>

definition probe_settled :: "target \<Rightarrow> probe_env \<Rightarrow> heap \<Rightarrow> health_outcome \<times> heap" where
  "probe_settled svc pe h =
     (let durationMs = settled pe - started pe in
      case response pe of
        Resolved r_data \<Rightarrow>
          (let h' = addLog (log_ts pe)
                      \<lparr>level = Some ''info'',
                       service = Some (target.name svc),
                       msg = Some (''Healthcheck ok ('' @ show_int durationMs @ ''ms)'')\<rparr> h
           in (\<lparr>name = target.name svc, url = baseUrl svc,
                status = js_or (optional_status r_data) (JString ''unknown''),
                latencyMs = durationMs, error = None, lastCheck = check_ts pe\<rparr>, h'))
      | Rejected m \<Rightarrow>
          (let h' = addLog (log_ts pe)
                      \<lparr>level = Some ''error'',
                       service = Some (target.name svc),
                       msg = Some (''Healthcheck failed ('' @ show_int durationMs @ ''ms): '' @ m)\<rparr> h
           in (\<lparr>name = target.name svc, url = baseUrl svc,
                status = JString ''down'',
                latencyMs = durationMs, error = Some m, lastCheck = check_ts pe\<rparr>, h')))"

text \<open>
  \<^verbatim>\<open>Promise.all(parsedTargets.map(async (svc) => ...))\<close>. The map starts one request per
  target, in registry order; \<open>probes\<close> pairs each target with what the world does to its
  probe. The pending requests then settle in some order, given as the list \<open>order\<close> of
  their indices; each continuation runs to its end before the next one starts. A promise
  settles once, and there is no promise outside the registry: such an index in \<open>order\<close>
  is no event. \<open>slots\<close> holds the values of the promises fulfilled so far.
\<close>

fun settle_all ::
  "(target \<times> probe_env) list \<Rightarrow> nat list \<Rightarrow> (nat \<rightharpoonup> health_outcome) \<Rightarrow> heap \<Rightarrow>
     (nat \<rightharpoonup> health_outcome) \<times> heap" where
  "settle_all probes [] slots h = (slots, h)"
| "settle_all probes (i # rest) slots h =
     (if i < length probes \<and> slots i = None
      then (let (out, h') = probe_settled (fst (probes ! i)) (snd (probes ! i)) h
            in settle_all probes rest (slots(i \<mapsto> out)) h')
      else settle_all probes rest slots h)"

text \<open>
  \<^verbatim>\<open>
    res.json({ timestamp: new Date().toISOString(), services: results });
  \<close>
  \<^verbatim>\<open>Promise.all\<close> resolves once every promise is fulfilled, with their values in the order
  of the array it was given. While one is pending the handler stays suspended and sends
  nothing: the response is \<open>None\<close>.
\<close>

record healthgraph =
  timestamp :: timestamp
  services :: "health_outcome list"

definition obs_healthgraph ::
  "(target \<times> probe_env) list \<Rightarrow> nat list \<Rightarrow> timestamp \<Rightarrow> heap \<Rightarrow> healthgraph option \<times> heap" where
  "obs_healthgraph probes order t_resp h =
     (let (slots, h') = settle_all probes order Map.empty h
      in (case those (map slots [0..<length probes]) of
            None \<Rightarrow> None
          | Some results \<Rightarrow> Some \<lparr>timestamp = t_resp, services = results\<rparr>,
          h'))"

section \<open>Properties of the target registry\<close>

subsection \<open>Splitting\<close>

lemma split_on_not_Nil: "split_on c s \<noteq> []"
  by (induction s) (auto split: list.splits)

lemma split_on_no_sep: "c \<notin> set a \<Longrightarrow> split_on c a = [a]"
  by (induction a) auto

lemma split_on_append_sep: "split_on c (a @ c # b) = split_on c a @ split_on c b"
proof (induction a)
  case Nil
  show ?case using split_on_not_Nil [of c b] by (cases "split_on c b") auto
next
  case (Cons x a)
  obtain w ws where ws: "split_on c a = w # ws"
    using split_on_not_Nil [of c a] by (cases "split_on c a") auto
  with Cons show ?case by simp
qed

lemma split_on_unfold:
  "split_on c s = takeWhile (\<lambda>x. x \<noteq> c) s #
     (case dropWhile (\<lambda>x. x \<noteq> c) s of [] \<Rightarrow> [] | _ # r \<Rightarrow> split_on c r)"
proof (induction s)
  case Nil
  show ?case by simp
next
  case (Cons x s)
  show ?case
  proof (cases "x = c")
    case True
    then show ?thesis using split_on_not_Nil [of c s] by (cases "split_on c s") auto
  next
    case False
    then show ?thesis using Cons by simp
  qed
qed

lemma dropWhile_neq_sep:
  assumes "c \<in> set p"
  shows "dropWhile (\<lambda>x. x \<noteq> c) p = c # tl (dropWhile (\<lambda>x. x \<noteq> c) p)"
proof -
  let ?d = "dropWhile (\<lambda>x. x \<noteq> c) p"
  have ne: "?d \<noteq> []" using assms by simp
  then have "hd ?d = c" using hd_dropWhile [of "\<lambda>x. x \<noteq> c" p] by simp
  with ne show ?thesis by (cases ?d) auto
qed

lemma split_on_two:
  assumes "c \<in> set p"
  shows "\<exists>ws. split_on c p = takeWhile (\<lambda>x. x \<noteq> c) p #
           takeWhile (\<lambda>x. x \<noteq> c) (tl (dropWhile (\<lambda>x. x \<noteq> c) p)) # ws"
proof -
  let ?r = "tl (dropWhile (\<lambda>x. x \<noteq> c) p)"
  have d: "dropWhile (\<lambda>x. x \<noteq> c) p = c # ?r" using assms by (rule dropWhile_neq_sep)
  have "split_on c p = takeWhile (\<lambda>x. x \<noteq> c) p #
     (case dropWhile (\<lambda>x. x \<noteq> c) p of [] \<Rightarrow> [] | _ # r \<Rightarrow> split_on c r)"
    by (rule split_on_unfold)
  also have "(case dropWhile (\<lambda>x. x \<noteq> c) p of [] \<Rightarrow> [] | _ # r \<Rightarrow> split_on c r) = split_on c ?r"
    by (subst d) simp
  finally have 1: "split_on c p = takeWhile (\<lambda>x. x \<noteq> c) p # split_on c ?r" .
  obtain ws where 2: "split_on c ?r = takeWhile (\<lambda>x. x \<noteq> c) ?r # ws"
    using split_on_unfold [of c ?r] by blast
  show ?thesis using 1 2 by simp
qed

lemma parse_pair_eq:
  "parse_pair p =
     (if CHR ''='' \<in> set p
      then Inr \<lparr>target.name = trim (takeWhile (\<lambda>x. x \<noteq> CHR ''='') p),
                baseUrl = trim (takeWhile (\<lambda>x. x \<noteq> CHR ''='') (tl (dropWhile (\<lambda>x. x \<noteq> CHR ''='') p)))\<rparr>
      else Inl TypeError)"
proof (cases "CHR ''='' \<in> set p")
  case False
  then show ?thesis by (simp add: parse_pair_def split_on_no_sep)
next
  case True
  from split_on_two [OF True] obtain ws where
    "split_on CHR ''='' p = takeWhile (\<lambda>x. x \<noteq> CHR ''='') p #
       takeWhile (\<lambda>x. x \<noteq> CHR ''='') (tl (dropWhile (\<lambda>x. x \<noteq> CHR ''='') p)) # ws" ..
  then show ?thesis using True by (simp add: parse_pair_def)
qed

lemma map_throwing_eq:
  "map_throwing f xs =
     (if \<exists>x \<in> set xs. f x = Inl TypeError then Inl TypeError
      else Inr (map (\<lambda>x. projr (f x)) xs))"
proof (induction xs)
  case Nil
  show ?case by simp
next
  case (Cons x xs)
  show ?case
  proof (cases "f x")
    case (Inl e)
    then show ?thesis by (cases e) simp
  next
    case (Inr y)
    then show ?thesis using Cons by auto
  qed
qed

lemma filter_truthy: "filter truthy ps = filter (\<lambda>p. p \<noteq> []) ps"
  by (induction ps) (auto simp: truthy_def)

subsection \<open>Parsing the target list\<close>

text \<open>
  C9. Entries that are empty strings are skipped: an empty entry between two commas, after
  a trailing comma or before a leading comma yields no target and no error, so the result
  is that of the list without it; the empty list of entries gives the empty registry.
\<close>

theorem parsedTargets_skips_empty_entries:
  "parsedTargets (a @ '',,'' @ b) = parsedTargets (a @ '','' @ b) \<and>
   parsedTargets (a @ '','') = parsedTargets a \<and>
   parsedTargets ('','' @ a) = parsedTargets a \<and>
   parsedTargets [] = Inr []"
proof -
  have 1: "split_on CHR '','' (a @ '',,'' @ b) = split_on CHR '','' a @ [] # split_on CHR '','' b"
    using split_on_append_sep [of "CHR '',''" a "CHR '','' # b"]
          split_on_append_sep [of "CHR '',''" "[]" b] by simp
  have 2: "split_on CHR '','' (a @ '','' @ b) = split_on CHR '','' a @ split_on CHR '','' b"
    using split_on_append_sep [of "CHR '',''" a b] by simp
  have 3: "split_on CHR '','' (a @ '','') = split_on CHR '','' a @ [[]]"
    using split_on_append_sep [of "CHR '',''" a "[]"] by simp
  have 4: "split_on CHR '','' ('','' @ a) = [] # split_on CHR '','' a"
    using split_on_append_sep [of "CHR '',''" "[]" a] by simp
  show ?thesis
    unfolding parsedTargets_def 1 2 3 4 by (simp add: truthy_def)
qed

text \<open>
  C10. When the text after the first \<open>=\<close> of an entry itself contains \<open>=\<close>, the target's
  \<open>baseUrl\<close> is the (trimmed) text between the first and the second \<open>=\<close>; everything from
  the second \<open>=\<close> on is dropped without an error. This holds of the callback on the entry,
  and of the whole parse when the entry is the whole list.
\<close>

theorem parse_pair_drops_after_second_separator:
  assumes "CHR ''='' \<notin> set n" and "CHR ''='' \<notin> set u"
  shows "parse_pair (n @ ''='' @ u @ ''='' @ rest) = Inr \<lparr>target.name = trim n, baseUrl = trim u\<rparr> \<and>
         (CHR '','' \<notin> set (n @ u @ rest) \<longrightarrow>
            parsedTargets (n @ ''='' @ u @ ''='' @ rest) = Inr [\<lparr>target.name = trim n, baseUrl = trim u\<rparr>])"
proof -
  let ?e = "n @ ''='' @ u @ ''='' @ rest"
  have "split_on CHR ''='' ?e = split_on CHR ''='' n @ split_on CHR ''='' (u @ ''='' @ rest)"
    using split_on_append_sep [of "CHR ''=''" n "u @ ''='' @ rest"] by simp
  also have "split_on CHR ''='' (u @ ''='' @ rest) = split_on CHR ''='' u @ split_on CHR ''='' rest"
    using split_on_append_sep [of "CHR ''=''" u rest] by simp
  finally have s: "split_on CHR ''='' ?e = n # u # split_on CHR ''='' rest"
    using assms by (simp add: split_on_no_sep)
  have pp: "parse_pair ?e = Inr \<lparr>target.name = trim n, baseUrl = trim u\<rparr>"
    unfolding parse_pair_def s by simp
  have "parsedTargets ?e = Inr [\<lparr>target.name = trim n, baseUrl = trim u\<rparr>]"
    if "CHR '','' \<notin> set (n @ u @ rest)"
  proof -
    have "CHR '','' \<notin> set ?e" using that by simp
    then have "split_on CHR '','' ?e = [?e]" by (rule split_on_no_sep)
    then show ?thesis unfolding parsedTargets_def using pp by (simp add: truthy_def)
  qed
  with pp show ?thesis by blast
qed

theorem parse_pair_drops_after_second_separator_witness:
  "parsedTargets ''api = http://api/q?a=1&b=2'' = Inr [\<lparr>target.name = ''api'', baseUrl = ''http://api/q?a''\<rparr>]"
proof -
  have n: "CHR ''='' \<notin> set ''api ''" by simp
  have u: "CHR ''='' \<notin> set '' http://api/q?a''" by simp
  have c: "CHR '','' \<notin> set (''api '' @ '' http://api/q?a'' @ ''1&b=2'')" by simp
  show ?thesis
    using parse_pair_drops_after_second_separator [OF n u, of "''1&b=2''"] c
    by (simp add: trim_def is_ws_def)
qed

text \<open>
  C4, as the code has it. The parse throws exactly when some non-empty entry has no \<open>=\<close>;
  the error is the TypeError of \<^verbatim>\<open>url.trim()\<close> on \<^verbatim>\<open>undefined\<close>. Otherwise it returns one
  target per non-empty entry, in input order, whose name is the trimmed text before the
  first \<open>=\<close> and whose URL is the trimmed text between the first \<open>=\<close> and the second (or
  the end). Nothing checks that the trimmed name or URL is non-empty.
\<close>

theorem parsedTargets_fails_iff_entry_without_separator:
  "parsedTargets raw =
     (if \<exists>p \<in> set (split_on CHR '','' raw). p \<noteq> [] \<and> CHR ''='' \<notin> set p
      then Inl TypeError
      else Inr (map (\<lambda>p. \<lparr>target.name = trim (takeWhile (\<lambda>x. x \<noteq> CHR ''='') p),
                           baseUrl = trim (takeWhile (\<lambda>x. x \<noteq> CHR ''='')
                                       (tl (dropWhile (\<lambda>x. x \<noteq> CHR ''='') p)))\<rparr>)
                    (filter (\<lambda>p. p \<noteq> []) (split_on CHR '','' raw))))"
  unfolding parsedTargets_def filter_truthy
  by (subst map_throwing_eq) (auto simp: parse_pair_eq)

theorem parsedTargets_fails_iff_entry_without_separator_witness:
  "parsedTargets ''a=http://a,b'' = Inl TypeError \<and>
   parsedTargets '' a = http://a ,,b=http://b'' =
     Inr [\<lparr>target.name = ''a'', baseUrl = ''http://a''\<rparr>, \<lparr>target.name = ''b'', baseUrl = ''http://b''\<rparr>]"
  using parsedTargets_fails_iff_entry_without_separator [of "''a=http://a,b''"]
        parsedTargets_fails_iff_entry_without_separator [of "'' a = http://a ,,b=http://b''"]
  by (simp add: trim_def is_ws_def)

theorem parsedTargets_accepts_empty_name_and_url:
  "parsedTargets ''=http://a,b='' =
     Inr [\<lparr>target.name = '''', baseUrl = ''http://a''\<rparr>, \<lparr>target.name = ''b'', baseUrl = ''''\<rparr>]"
  by (simp add: parsedTargets_def parse_pair_def truthy_def trim_def is_ws_def)

section \<open>Properties of the log ring\<close>

subsection \<open>One call and a sequence of calls of addLog\<close>

lemma arrays_addLog:
  "arrays (addLog now e h) a =
     (if a = logsBuffer
      then (if length (arrays h logsBuffer) < MAX_LOGS
            then arrays h logsBuffer @ [stamp now e]
            else tl (arrays h logsBuffer) @ [stamp now e])
      else arrays h a)"
proof (cases "arrays h logsBuffer")
  case Nil
  then show ?thesis
    by (simp add: addLog_def array_push_def array_length_def array_shift_def MAX_LOGS_def Let_def)
next
  case (Cons x xs)
  then show ?thesis
    by (simp add: addLog_def array_push_def array_length_def array_shift_def MAX_LOGS_def Let_def)
qed

lemma next_addr_addLog: "next_addr (addLog now e h) = next_addr h"
  by (simp add: addLog_def array_push_def array_shift_def Let_def)

lemma addLog_calls_snoc:
  "addLog_calls (calls @ [(now, e)]) h = addLog now e (addLog_calls calls h)"
  by (induction calls h rule: addLog_calls.induct) simp_all

lemma next_addr_addLog_calls: "next_addr (addLog_calls calls h) = next_addr h"
  by (induction calls h rule: addLog_calls.induct) (simp_all add: next_addr_addLog)

lemma arrays_addLog_calls_other:
  "a \<noteq> logsBuffer \<Longrightarrow> arrays (addLog_calls calls h) a = arrays h a"
  by (induction calls h rule: addLog_calls.induct) (simp_all add: arrays_addLog)

lemma ring_after_calls:
  "arrays (addLog_calls calls initial_heap) logsBuffer =
     drop (length calls - MAX_LOGS) (map (\<lambda>(now, e). stamp now e) calls)"
proof (induction calls rule: rev_induct)
  case Nil
  show ?case by (simp add: initial_heap_def)
next
  case (snoc c calls)
  obtain now e where c: "c = (now, e)" by (cases c)
  let ?xs = "map (\<lambda>(now, e). stamp now e) calls"
  let ?k = "length calls - MAX_LOGS"
  have ring: "arrays (addLog_calls calls initial_heap) logsBuffer = drop ?k ?xs"
    by (rule snoc.IH)
  show ?case
  proof (cases "length calls < MAX_LOGS")
    case True
    then show ?thesis
      unfolding c addLog_calls_snoc by (simp add: arrays_addLog ring)
  next
    case False
    then have k: "Suc ?k \<le> length ?xs" "length calls + 1 - MAX_LOGS = Suc ?k"
      by (simp_all add: MAX_LOGS_def)
    have "tl (drop ?k ?xs) @ [stamp now e] = drop (Suc ?k) (?xs @ [stamp now e])"
      using k(1) by (simp add: drop_Suc tl_drop)
    then show ?thesis
      unfolding c addLog_calls_snoc using False k(2)
      by (simp add: arrays_addLog ring MAX_LOGS_def)
  qed
qed

lemma snapshot_eq:
  "snapshot h =
     (next_addr h,
      h\<lparr>arrays := (arrays h)(next_addr h := rev (arrays h logsBuffer)),
        next_addr := Suc (next_addr h)\<rparr>)"
  by (simp add: snapshot_def array_spread_def array_reverse_def)

lemma logsBuffer_allocated: "logsBuffer < next_addr (addLog_calls calls initial_heap)"
  by (simp add: next_addr_addLog_calls initial_heap_def logsBuffer_def)

subsection \<open>Capacity and eviction\<close>

text \<open>
  C3. After every sequence of calls of \<^verbatim>\<open>addLog\<close> on the empty ring, the ring holds at
  most \<open>MAX_LOGS\<close> = 200 entries: it holds exactly the last 200 entries appended (all of
  them when there are fewer), in insertion order. One call on any ring appends at the
  tail when fewer than \<open>MAX_LOGS\<close> entries are held, and otherwise removes exactly the
  head, the oldest entry, and keeps every other entry in order. Reading the ring through
  the log listing leaves it as it is: nothing is promoted. The bound is that of the ring
  between calls; inside a call, between \<^verbatim>\<open>push\<close> and \<^verbatim>\<open>shift\<close>, the array holds one
  entry more, which no other code can observe.
\<close>

theorem ring_bounded_fifo:
  "length (arrays (addLog_calls calls initial_heap) logsBuffer) \<le> MAX_LOGS \<and>
   arrays (addLog_calls calls initial_heap) logsBuffer =
     drop (length calls - MAX_LOGS) (map (\<lambda>(now, e). stamp now e) calls) \<and>
   arrays (addLog now e h) logsBuffer =
     (if length (arrays h logsBuffer) < MAX_LOGS
      then arrays h logsBuffer @ [stamp now e]
      else tl (arrays h logsBuffer) @ [stamp now e]) \<and>
   arrays (snd (snapshot (addLog_calls calls initial_heap))) logsBuffer =
     arrays (addLog_calls calls initial_heap) logsBuffer"
proof -
  have "length (arrays (addLog_calls calls initial_heap) logsBuffer) \<le> MAX_LOGS"
    unfolding ring_after_calls by simp
  moreover have "arrays (snd (snapshot (addLog_calls calls initial_heap))) logsBuffer =
     arrays (addLog_calls calls initial_heap) logsBuffer"
    using logsBuffer_allocated [of calls] by (simp add: snapshot_eq)
  ultimately show ?thesis
    using ring_after_calls [of calls] arrays_addLog [of now e h logsBuffer] by simp
qed

text \<open>
  C7. \<^verbatim>\<open>addLog\<close> is a total function of the clock reading, the entry and the store: no
  combination of supplied and omitted fields makes it fail. The stored entry carries the
  clock reading, the level \<open>info\<close> and the service \<open>gateway\<close> when the field is omitted
  (or empty) and the supplied value otherwise, and it is the last element of the ring after
  the call; the entries before it are those of the ring before the call, less the oldest
  when the ring was full.
\<close>

theorem addLog_stamps_defaults_and_pushes:
  "arrays (addLog now e h) logsBuffer \<noteq> [] \<and>
   last (arrays (addLog now e h) logsBuffer) =
     \<lparr>ts = now,
      log_entry.level = (case entry.level e of None \<Rightarrow> ''info'' | Some l \<Rightarrow> if l = [] then ''info'' else l),
      log_entry.service = (case entry.service e of None \<Rightarrow> ''gateway'' | Some s \<Rightarrow> if s = [] then ''gateway'' else s),
      log_entry.msg = (case entry.msg e of None \<Rightarrow> [] | Some m \<Rightarrow> m)\<rparr> \<and>
   butlast (arrays (addLog now e h) logsBuffer) =
     (if length (arrays h logsBuffer) < MAX_LOGS
      then arrays h logsBuffer else tl (arrays h logsBuffer))"
proof -
  have "stamp now e =
     \<lparr>ts = now,
      log_entry.level = (case entry.level e of None \<Rightarrow> ''info'' | Some l \<Rightarrow> if l = [] then ''info'' else l),
      log_entry.service = (case entry.service e of None \<Rightarrow> ''gateway'' | Some s \<Rightarrow> if s = [] then ''gateway'' else s),
      log_entry.msg = (case entry.msg e of None \<Rightarrow> [] | Some m \<Rightarrow> m)\<rparr>"
    by (simp add: stamp_def or_default_def truthy_def split: option.splits)
  then show ?thesis by (simp add: arrays_addLog)
qed

subsection \<open>The log listing\<close>

text \<open>
  C5. After \<open>K \<le> MAX_LOGS\<close> calls of \<^verbatim>\<open>addLog\<close> on the empty ring, the log listing
  returns exactly the \<open>K\<close> entries, most recent first. The array it returns lives at a
  fresh address, different from that of the ring: building it leaves the ring unchanged,
  later appends to the ring leave the returned array unchanged, and mutating the returned
  array (\<^verbatim>\<open>push\<close>, \<^verbatim>\<open>shift\<close>, \<^verbatim>\<open>reverse\<close>) leaves the ring unchanged.
\<close>

theorem snapshot_is_reversed_copy:
  assumes "length calls \<le> MAX_LOGS"
  shows "fst (obs_logs (addLog_calls calls initial_heap)) = rev (map (\<lambda>(now, e). stamp now e) calls) \<and>
         length (fst (obs_logs (addLog_calls calls initial_heap))) = length calls \<and>
         (case snapshot (addLog_calls calls initial_heap) of
            (items, h') \<Rightarrow>
              items \<noteq> logsBuffer \<and>
              arrays h' items = rev (map (\<lambda>(now, e). stamp now e) calls) \<and>
              arrays h' logsBuffer = arrays (addLog_calls calls initial_heap) logsBuffer \<and>
              arrays (addLog_calls later h') items = arrays h' items \<and>
              arrays (array_push items x h') logsBuffer = arrays h' logsBuffer \<and>
              arrays (array_shift items h') logsBuffer = arrays h' logsBuffer \<and>
              arrays (array_reverse items h') logsBuffer = arrays h' logsBuffer)"
proof -
  let ?h = "addLog_calls calls initial_heap"
  let ?es = "map (\<lambda>(now, e). stamp now e) calls"
  have ring: "arrays ?h logsBuffer = ?es"
    using assms by (simp add: ring_after_calls)
  have fresh: "next_addr ?h \<noteq> logsBuffer"
    using logsBuffer_allocated [of calls] by simp
  have 1: "fst (obs_logs ?h) = rev ?es"
    by (simp add: obs_logs_def snapshot_eq ring)
  have 2: "arrays (addLog_calls later (snd (snapshot ?h))) (next_addr ?h) = rev ?es"
    using fresh by (simp add: arrays_addLog_calls_other snapshot_eq ring)
  show ?thesis
    using 1 2 fresh
    by (simp add: snapshot_eq ring array_push_def array_shift_def array_reverse_def)
qed

theorem snapshot_is_reversed_copy_witness:
  "fst (obs_logs (addLog_calls
      [(1, \<lparr>level = Some ''info'', service = Some ''gateway'', msg = Some ''Gateway started''\<rparr>),
       (2, \<lparr>level = Some ''error'', service = Some ''users'', msg = None\<rparr>)] initial_heap)) =
     [\<lparr>ts = 2, log_entry.level = ''error'', log_entry.service = ''users'', log_entry.msg = ''''\<rparr>,
      \<lparr>ts = 1, log_entry.level = ''info'', log_entry.service = ''gateway'', log_entry.msg = ''Gateway started''\<rparr>]"
proof -
  have "length [(1::int, \<lparr>level = Some ''info'', service = Some ''gateway'', msg = Some ''Gateway started''\<rparr>),
       (2, \<lparr>level = Some ''error'', service = Some ''users'', msg = None\<rparr>)] \<le> MAX_LOGS"
    by (simp add: MAX_LOGS_def)
  from snapshot_is_reversed_copy [OF this] show ?thesis
    by (simp add: stamp_def or_default_def truthy_def)
qed

section \<open>Properties of the health aggregator\<close>

subsection \<open>One probe, and all probes settled\<close>

text \<open>
  Neither branch of the callback can throw: the rejection of the request is what the
  \<^verbatim>\<open>catch\<close> branch handles, and the branches only read fields, call \<^verbatim>\<open>addLog\<close> and build
  an object. So no promise of the map is rejected and \<^verbatim>\<open>Promise.all\<close> is never rejected:
  the model has no error result. axios settles every request (at the latest when the
  timeout of 2000 ms expires), so the orders to consider are the permutations of the
  registry's indices: \<open>distinct order\<close> and \<open>set order = {..<length probes}\<close>.
\<close>

lemma fst_probe_settled:
  "fst (probe_settled svc pe h) =
     (case response pe of
        Resolved d \<Rightarrow>
          \<lparr>health_outcome.name = target.name svc, url = baseUrl svc,
           status = js_or (optional_status d) (JString ''unknown''),
           latencyMs = settled pe - started pe, error = None, lastCheck = check_ts pe\<rparr>
      | Rejected m \<Rightarrow>
          \<lparr>health_outcome.name = target.name svc, url = baseUrl svc,
           status = JString ''down'',
           latencyMs = settled pe - started pe, error = Some m, lastCheck = check_ts pe\<rparr>)"
  by (simp add: probe_settled_def Let_def split: axios_result.splits)

lemma snd_probe_settled:
  "snd (probe_settled svc pe h) =
     addLog (log_ts pe)
       (case response pe of
          Resolved st \<Rightarrow>
            \<lparr>level = Some ''info'', service = Some (target.name svc),
             msg = Some (''Healthcheck ok ('' @ show_int (settled pe - started pe) @ ''ms)'')\<rparr>
        | Rejected m \<Rightarrow>
            \<lparr>level = Some ''error'', service = Some (target.name svc),
             msg = Some (''Healthcheck failed ('' @ show_int (settled pe - started pe) @ ''ms): '' @ m)\<rparr>)
       h"
  by (simp add: probe_settled_def Let_def split: axios_result.splits)

lemma fst_probe_settled_heap: "fst (probe_settled svc pe h) = fst (probe_settled svc pe h0)"
  by (simp add: fst_probe_settled)

lemma settle_all_distinct:
  assumes "distinct order"
    and "\<forall>i \<in> set order. i < length probes \<and> slots i = None"
  shows "settle_all probes order slots h =
           ((\<lambda>i. if i \<in> set order
                  then Some (fst (probe_settled (fst (probes ! i)) (snd (probes ! i)) h0))
                  else slots i),
            foldl (\<lambda>h i. snd (probe_settled (fst (probes ! i)) (snd (probes ! i)) h)) h order)"
  using assms
proof (induction order arbitrary: slots h)
  case Nil
  show ?case by simp
next
  case (Cons i rest)
  let ?out = "fst (probe_settled (fst (probes ! i)) (snd (probes ! i)) h)"
  let ?h' = "snd (probe_settled (fst (probes ! i)) (snd (probes ! i)) h)"
  have i: "i < length probes" "slots i = None" "i \<notin> set rest" "distinct rest"
    using Cons.prems by simp_all
  have rest: "\<forall>j \<in> set rest. j < length probes \<and> (slots(i \<mapsto> ?out)) j = None"
    using Cons.prems by auto
  have step: "settle_all probes (i # rest) slots h = settle_all probes rest (slots(i \<mapsto> ?out)) ?h'"
    using i(1,2) by (simp add: case_prod_beta)
  have out: "?out = fst (probe_settled (fst (probes ! i)) (snd (probes ! i)) h0)"
    by (rule fst_probe_settled_heap)
  show ?case
    unfolding step Cons.IH [OF i(4) rest]
    using i(3) by (auto simp: out fun_eq_iff)
qed

lemma those_map_Some: "those (map (\<lambda>i. Some (g i)) xs) = Some (map g xs)"
  by (induction xs) simp_all

lemma map_nth_fun: "map (\<lambda>i. f (xs ! i)) [0..<length xs] = map f xs"
proof -
  have "map (\<lambda>i. f (xs ! i)) [0..<length xs] = map f (map ((!) xs) [0..<length xs])"
    by simp
  then show ?thesis by (simp only: map_nth)
qed

lemma obs_healthgraph_all_settled:
  assumes "distinct order" and "set order = {..<length probes}"
  shows "obs_healthgraph probes order t h =
           (Some \<lparr>timestamp = t,
                  services = map (\<lambda>p. fst (probe_settled (fst p) (snd p) h0)) probes\<rparr>,
            foldl (\<lambda>h i. snd (probe_settled (fst (probes ! i)) (snd (probes ! i)) h)) h order)"
proof -
  have pre: "\<forall>i \<in> set order. i < length probes \<and> Map.empty i = (None :: health_outcome option)"
    using assms(2) by simp
  let ?g = "\<lambda>i. fst (probe_settled (fst (probes ! i)) (snd (probes ! i)) h0)"
  have "map (\<lambda>i. if i \<in> set order then Some (?g i) else None) [0..<length probes] =
        map (\<lambda>i. Some (?g i)) [0..<length probes]"
    using assms(2) by simp
  then have "those (map (\<lambda>i. if i \<in> set order then Some (?g i) else None) [0..<length probes]) =
        Some (map ?g [0..<length probes])"
    by (simp only: those_map_Some)
  also have "map ?g [0..<length probes] = map (\<lambda>p. fst (probe_settled (fst p) (snd p) h0)) probes"
    by (rule map_nth_fun)
  finally show ?thesis
    unfolding obs_healthgraph_def settle_all_distinct [OF assms(1) pre, of h h0]
    by simp
qed

lemma foldl_addLog_calls:
  "foldl (\<lambda>h i. addLog (f i) (g i) h) h xs = addLog_calls (map (\<lambda>i. (f i, g i)) xs) h"
  by (induction xs arbitrary: h) simp_all

lemma all_settled_outcomes:
  assumes "distinct order" and "set order = {..<length probes}"
  shows "fst (obs_healthgraph probes order t h) =
           Some \<lparr>timestamp = t,
                 services = map (\<lambda>p. fst (probe_settled (fst p) (snd p) h0)) probes\<rparr>"
  by (simp add: obs_healthgraph_all_settled [OF assms, of t h h0])

lemma all_settled_heap:
  assumes "distinct order" and "set order = {..<length probes}"
  shows "snd (obs_healthgraph probes order t h) =
           addLog_calls
             (map (\<lambda>i. (log_ts (snd (probes ! i)),
                         case response (snd (probes ! i)) of
                           Resolved st \<Rightarrow>
                             \<lparr>level = Some ''info'', service = Some (target.name (fst (probes ! i))),
                              msg = Some (''Healthcheck ok ('' @
                                show_int (settled (snd (probes ! i)) - started (snd (probes ! i))) @ ''ms)'')\<rparr>
                         | Rejected m \<Rightarrow>
                             \<lparr>level = Some ''error'', service = Some (target.name (fst (probes ! i))),
                              msg = Some (''Healthcheck failed ('' @
                                show_int (settled (snd (probes ! i)) - started (snd (probes ! i))) @
                                ''ms): '' @ m)\<rparr>))
                  order) h"
  unfolding obs_healthgraph_all_settled [OF assms, of t h h] snd_conv snd_probe_settled
  by (rule foldl_addLog_calls)

lemma last_ring_addLog: "last (arrays (addLog now e h) logsBuffer) = stamp now e"
  by (simp add: arrays_addLog)

lemma addLog_calls_append:
  "addLog_calls (xs @ ys) h = addLog_calls ys (addLog_calls xs h)"
  by (induction xs h rule: addLog_calls.induct) simp_all

lemma js_or_unknown:
  "js_or v (JString ''unknown'') =
     (case v of
        JUndefined \<Rightarrow> JString ''unknown''
      | JNull \<Rightarrow> JString ''unknown''
      | JBoolean b \<Rightarrow> if b then JBoolean True else JString ''unknown''
      | JNumber n \<Rightarrow>
          (case n of
             Finite q \<Rightarrow> if q = 0 then JString ''unknown'' else JNumber (Finite q)
           | Infinity s \<Rightarrow> JNumber (Infinity s)
           | NaN \<Rightarrow> JString ''unknown'')
      | JString s \<Rightarrow> if s = [] then JString ''unknown'' else JString s
      | JArray xs \<Rightarrow> JArray xs
      | JObject ps \<Rightarrow> JObject ps)"
  by (simp add: js_or_def split: js_value.splits js_number.splits)

lemma all_settled_heap_split:
  assumes "distinct order" and "set order = {..<length probes}"
    and "order = pre @ i # post"
  shows "snd (obs_healthgraph probes order t h) =
           addLog_calls
             (map (\<lambda>j. (log_ts (snd (probes ! j)),
                         case response (snd (probes ! j)) of
                           Resolved d \<Rightarrow>
                             \<lparr>level = Some ''info'', service = Some (target.name (fst (probes ! j))),
                              msg = Some (''Healthcheck ok ('' @
                                show_int (settled (snd (probes ! j)) - started (snd (probes ! j))) @ ''ms)'')\<rparr>
                         | Rejected m \<Rightarrow>
                             \<lparr>level = Some ''error'', service = Some (target.name (fst (probes ! j))),
                              msg = Some (''Healthcheck failed ('' @
                                show_int (settled (snd (probes ! j)) - started (snd (probes ! j))) @
                                ''ms): '' @ m)\<rparr>))
                  post)
             (addLog (log_ts (snd (probes ! i)))
                (case response (snd (probes ! i)) of
                   Resolved d \<Rightarrow>
                     \<lparr>level = Some ''info'', service = Some (target.name (fst (probes ! i))),
                      msg = Some (''Healthcheck ok ('' @
                        show_int (settled (snd (probes ! i)) - started (snd (probes ! i))) @ ''ms)'')\<rparr>
                 | Rejected m \<Rightarrow>
                     \<lparr>level = Some ''error'', service = Some (target.name (fst (probes ! i))),
                      msg = Some (''Healthcheck failed ('' @
                        show_int (settled (snd (probes ! i)) - started (snd (probes ! i))) @
                        ''ms): '' @ m)\<rparr>)
                (addLog_calls
                   (map (\<lambda>j. (log_ts (snd (probes ! j)),
                         case response (snd (probes ! j)) of
                           Resolved d \<Rightarrow>
                             \<lparr>level = Some ''info'', service = Some (target.name (fst (probes ! j))),
                              msg = Some (''Healthcheck ok ('' @
                                show_int (settled (snd (probes ! j)) - started (snd (probes ! j))) @ ''ms)'')\<rparr>
                         | Rejected m \<Rightarrow>
                             \<lparr>level = Some ''error'', service = Some (target.name (fst (probes ! j))),
                              msg = Some (''Healthcheck failed ('' @
                                show_int (settled (snd (probes ! j)) - started (snd (probes ! j))) @
                                ''ms): '' @ m)\<rparr>))
                      pre) h))"
  unfolding all_settled_heap [OF assms(1,2)]
  by (simp add: assms(3) addLog_calls_append)


lemma index_settles:
  assumes "set order = {..<length probes}" and "i < length probes"
  shows "\<exists>pre post. order = pre @ i # post"
proof -
  have "i \<in> set order" using assms by simp
  then show ?thesis by (rule split_list)
qed

lemma status_of_body:
  "js_or (optional_status d) (JString ''unknown'') =
     (case d of
        JObject ps \<Rightarrow>
          (case map_of ps ''status'' of
             None \<Rightarrow> JString ''unknown''
           | Some v \<Rightarrow>
               (case v of
                  JUndefined \<Rightarrow> JString ''unknown''
                | JNull \<Rightarrow> JString ''unknown''
                | JBoolean b \<Rightarrow> if b then JBoolean True else JString ''unknown''
                | JNumber n \<Rightarrow>
                    (case n of
                       Finite q \<Rightarrow> if q = 0 then JString ''unknown'' else JNumber (Finite q)
                     | Infinity s \<Rightarrow> JNumber (Infinity s)
                     | NaN \<Rightarrow> JString ''unknown'')
                | JString s \<Rightarrow> if s = [] then JString ''unknown'' else JString s
                | JArray xs \<Rightarrow> JArray xs
                | JObject qs \<Rightarrow> JObject qs))
      | _ \<Rightarrow> JString ''unknown'')"
proof (cases d)
  case (JObject ps)
  show ?thesis
  proof (cases "map_of ps ''status''")
    case None
    with JObject show ?thesis by (simp add: js_or_def)
  next
    case (Some v)
    with JObject show ?thesis by (simp add: js_or_unknown)
  qed
qed (simp_all add: js_or_def)

subsection \<open>Fan-in\<close>

text \<open>
  C2. For a registry of \<open>N\<close> targets, whatever the order in which the \<open>N\<close> probes
  settle, the response carries exactly \<open>N\<close> outcomes, and the \<open>i\<close>-th one is the outcome of
  the probe of the \<open>i\<close>-th target of the registry: it has that target's name and URL, and
  the status, latency, error and time of check that this target's own request gives
  (\<open>outcome\<close> below spells them out). Two orders of completion give the same sequence.
\<close>

theorem outcomes_in_registry_order:
  fixes probes :: "(target \<times> probe_env) list"
  fixes outcome :: "target \<times> probe_env \<Rightarrow> health_outcome"
  defines "outcome \<equiv> \<lambda>p.
     case response (snd p) of
       Resolved d \<Rightarrow>
         \<lparr>health_outcome.name = target.name (fst p), url = baseUrl (fst p),
          status = (if ToBoolean (optional_status d) then optional_status d else JString ''unknown''),
          latencyMs = settled (snd p) - started (snd p), error = None, lastCheck = check_ts (snd p)\<rparr>
     | Rejected m \<Rightarrow>
         \<lparr>health_outcome.name = target.name (fst p), url = baseUrl (fst p),
          status = JString ''down'',
          latencyMs = settled (snd p) - started (snd p), error = Some m, lastCheck = check_ts (snd p)\<rparr>"
  assumes "distinct order" and "set order = {..<length probes}"
    and "distinct order'" and "set order' = {..<length probes}"
  shows "\<exists>outs. fst (obs_healthgraph probes order t h) = Some \<lparr>timestamp = t, services = outs\<rparr> \<and>
           fst (obs_healthgraph probes order' t h) = Some \<lparr>timestamp = t, services = outs\<rparr> \<and>
           length outs = length probes \<and>
           map health_outcome.name outs = map (\<lambda>p. target.name (fst p)) probes \<and>
           map url outs = map (\<lambda>p. baseUrl (fst p)) probes \<and>
           outs = map outcome probes \<and>
           (\<forall>i < length probes. outs ! i = outcome (probes ! i))"
proof -
  let ?outs = "map (\<lambda>p. fst (probe_settled (fst p) (snd p) h)) probes"
  have 1: "fst (obs_healthgraph probes order t h) = Some \<lparr>timestamp = t, services = ?outs\<rparr>"
    using assms(2,3) by (rule all_settled_outcomes)
  have 2: "fst (obs_healthgraph probes order' t h) = Some \<lparr>timestamp = t, services = ?outs\<rparr>"
    using assms(4,5) by (rule all_settled_outcomes)
  have 3: "map health_outcome.name ?outs = map (\<lambda>p. target.name (fst p)) probes"
    by (simp add: fst_probe_settled split: axios_result.splits)
  have 4: "map url ?outs = map (\<lambda>p. baseUrl (fst p)) probes"
    by (simp add: fst_probe_settled split: axios_result.splits)
  have 5: "?outs = map outcome probes"
    unfolding outcome_def by (simp add: fst_probe_settled js_or_def split: axios_result.splits)
  have 6: "\<forall>i < length probes. ?outs ! i = outcome (probes ! i)"
    unfolding 5 by simp
  show ?thesis using 1 2 3 4 5 6 by simp
qed

theorem outcomes_in_registry_order_witness:
  "fst (obs_healthgraph
       [(\<lparr>target.name = ''a'', baseUrl = ''http://a''\<rparr>,
         \<lparr>started = 1000, response = Resolved (JObject [(''status'', JString ''ok'')]),
          settled = 1010, log_ts = 1010, check_ts = 1011\<rparr>),
        (\<lparr>target.name = ''b'', baseUrl = ''http://b''\<rparr>,
         \<lparr>started = 1000, response = Rejected ''timeout of 2000ms exceeded'', settled = 3001,
          log_ts = 3001, check_ts = 3002\<rparr>)]
       [1, 0] 3003 initial_heap) =
     Some \<lparr>timestamp = 3003,
           services =
             [\<lparr>health_outcome.name = ''a'', url = ''http://a'', status = JString ''ok'',
               latencyMs = 10, error = None, lastCheck = 1011\<rparr>,
              \<lparr>health_outcome.name = ''b'', url = ''http://b'', status = JString ''down'',
               latencyMs = 2001, error = Some ''timeout of 2000ms exceeded'', lastCheck = 3002\<rparr>]\<rparr>"
proof -
  let ?p = "[(\<lparr>target.name = ''a'', baseUrl = ''http://a''\<rparr>,
         \<lparr>started = 1000, response = Resolved (JObject [(''status'', JString ''ok'')]),
          settled = 1010, log_ts = 1010, check_ts = 1011\<rparr>),
        (\<lparr>target.name = ''b'', baseUrl = ''http://b''\<rparr>,
         \<lparr>started = 1000, response = Rejected ''timeout of 2000ms exceeded'', settled = 3001,
          log_ts = 3001, check_ts = 3002\<rparr>)]"
  have d: "distinct [1, 0 :: nat]" "distinct [0, 1 :: nat]" by simp_all
  have s: "set [1, 0 :: nat] = {..<length ?p}" by auto
  have s': "set [0, 1 :: nat] = {..<length ?p}" by auto
  from outcomes_in_registry_order [OF d(1) s d(2) s', of 3003 initial_heap]
  obtain outs where
    "fst (obs_healthgraph ?p [1, 0] 3003 initial_heap) = Some \<lparr>timestamp = 3003, services = outs\<rparr>"
    and "outs = map (\<lambda>p.
     case response (snd p) of
       Resolved d \<Rightarrow>
         \<lparr>health_outcome.name = target.name (fst p), url = baseUrl (fst p),
          status = (if ToBoolean (optional_status d) then optional_status d else JString ''unknown''),
          latencyMs = settled (snd p) - started (snd p), error = None, lastCheck = check_ts (snd p)\<rparr>
     | Rejected m \<Rightarrow>
         \<lparr>health_outcome.name = target.name (fst p), url = baseUrl (fst p),
          status = JString ''down'',
          latencyMs = settled (snd p) - started (snd p), error = Some m, lastCheck = check_ts (snd p)\<rparr>) ?p"
    by blast
  then show ?thesis by simp
qed



subsection \<open>Outcome of one probe\<close>




text \<open>
  C6, as the code has it. A probe whose request is resolved gives the outcome whose
  status is the value of the \<open>status\<close> property of the body when that value is truthy,
  whatever its type, and the string \<open>unknown\<close> when the body is no object, the property
  is missing, or its value is falsy (\<^verbatim>\<open>null\<close>, \<^verbatim>\<open>false\<close>, zero, NaN, the empty string);
  its latency is \<open>settled - started\<close>. The store that the aggregation leaves is the store
  it found after the calls of \<^verbatim>\<open>addLog\<close> of the probes that settled earlier, then one call
  of this probe with level \<open>info\<close>, then the calls of the probes that settled later; right
  after this probe's call, the last entry of the ring is its entry, tagged with the
  target's name when the name is not empty, and with \<open>gateway\<close> when it is.
\<close>

theorem successful_probe_outcome:
  fixes probes :: "(target \<times> probe_env) list"
  fixes calls :: "nat list \<Rightarrow> (timestamp \<times> entry) list"
  defines "calls \<equiv> map (\<lambda>j.
     (log_ts (snd (probes ! j)),
      case response (snd (probes ! j)) of
        Resolved d \<Rightarrow>
          \<lparr>level = Some ''info'', service = Some (target.name (fst (probes ! j))),
           msg = Some (''Healthcheck ok ('' @
             show_int (settled (snd (probes ! j)) - started (snd (probes ! j))) @ ''ms)'')\<rparr>
      | Rejected m \<Rightarrow>
          \<lparr>level = Some ''error'', service = Some (target.name (fst (probes ! j))),
           msg = Some (''Healthcheck failed ('' @
             show_int (settled (snd (probes ! j)) - started (snd (probes ! j))) @
             ''ms): '' @ m)\<rparr>))"
  assumes "distinct order" and "set order = {..<length probes}"
    and "i < length probes" and "probes ! i = (svc, pe)" and "response pe = Resolved d"
  shows "services (the (fst (obs_healthgraph probes order t h))) ! i =
           \<lparr>health_outcome.name = target.name svc, url = baseUrl svc,
            status =
              (case d of
                 JObject ps \<Rightarrow>
                   (case map_of ps ''status'' of
                      None \<Rightarrow> JString ''unknown''
                    | Some v \<Rightarrow>
                        (case v of
                           JUndefined \<Rightarrow> JString ''unknown''
                         | JNull \<Rightarrow> JString ''unknown''
                         | JBoolean b \<Rightarrow> if b then JBoolean True else JString ''unknown''
                         | JNumber n \<Rightarrow>
                             (case n of
                                Finite q \<Rightarrow> if q = 0 then JString ''unknown'' else JNumber (Finite q)
                              | Infinity s \<Rightarrow> JNumber (Infinity s)
                              | NaN \<Rightarrow> JString ''unknown'')
                         | JString s \<Rightarrow> if s = [] then JString ''unknown'' else JString s
                         | JArray xs \<Rightarrow> JArray xs
                         | JObject qs \<Rightarrow> JObject qs))
               | _ \<Rightarrow> JString ''unknown''),
            latencyMs = settled pe - started pe, error = None, lastCheck = check_ts pe\<rparr> \<and>
         (\<exists>pre post.
            order = pre @ i # post \<and>
            snd (obs_healthgraph probes order t h) =
              addLog_calls (calls post)
                (addLog (log_ts pe)
                   \<lparr>level = Some ''info'', service = Some (target.name svc),
                    msg = Some (''Healthcheck ok ('' @ show_int (settled pe - started pe) @ ''ms)'')\<rparr>
                   (addLog_calls (calls pre) h)) \<and>
            last (arrays
                (addLog (log_ts pe)
                   \<lparr>level = Some ''info'', service = Some (target.name svc),
                    msg = Some (''Healthcheck ok ('' @ show_int (settled pe - started pe) @ ''ms)'')\<rparr>
                   (addLog_calls (calls pre) h)) logsBuffer) =
              \<lparr>ts = log_ts pe, log_entry.level = ''info'',
               log_entry.service = (if target.name svc = [] then ''gateway'' else target.name svc),
               log_entry.msg = ''Healthcheck ok ('' @ show_int (settled pe - started pe) @ ''ms)''\<rparr>)"
proof -
  have all: "fst (obs_healthgraph probes order t h) =
           Some \<lparr>timestamp = t,
                 services = map (\<lambda>p. fst (probe_settled (fst p) (snd p) h)) probes\<rparr>"
    using assms(2,3) by (rule all_settled_outcomes)
  have "services (the (fst (obs_healthgraph probes order t h))) ! i = fst (probe_settled svc pe h)"
    unfolding all using assms(4,5) by simp
  also have "\<dots> =
           \<lparr>health_outcome.name = target.name svc, url = baseUrl svc,
            status = js_or (optional_status d) (JString ''unknown''),
            latencyMs = settled pe - started pe, error = None, lastCheck = check_ts pe\<rparr>"
    using assms(6) by (simp add: fst_probe_settled)
  finally have ith: "services (the (fst (obs_healthgraph probes order t h))) ! i =
           \<lparr>health_outcome.name = target.name svc, url = baseUrl svc,
            status = js_or (optional_status d) (JString ''unknown''),
            latencyMs = settled pe - started pe, error = None, lastCheck = check_ts pe\<rparr>" .
  obtain pre post where split: "order = pre @ i # post"
    using index_settles [OF assms(3,4)] by blast
  have heap: "snd (obs_healthgraph probes order t h) =
              addLog_calls (calls post)
                (addLog (log_ts pe)
                   \<lparr>level = Some ''info'', service = Some (target.name svc),
                    msg = Some (''Healthcheck ok ('' @ show_int (settled pe - started pe) @ ''ms)'')\<rparr>
                   (addLog_calls (calls pre) h))"
    unfolding calls_def all_settled_heap_split [OF assms(2,3) split]
    using assms(5,6) by simp
  have tail: "last (arrays
                (addLog (log_ts pe)
                   \<lparr>level = Some ''info'', service = Some (target.name svc),
                    msg = Some (''Healthcheck ok ('' @ show_int (settled pe - started pe) @ ''ms)'')\<rparr>
                   (addLog_calls (calls pre) h)) logsBuffer) =
              \<lparr>ts = log_ts pe, log_entry.level = ''info'',
               log_entry.service = (if target.name svc = [] then ''gateway'' else target.name svc),
               log_entry.msg = ''Healthcheck ok ('' @ show_int (settled pe - started pe) @ ''ms)''\<rparr>"
    unfolding last_ring_addLog by (simp add: stamp_def or_default_def truthy_def)
  from split heap tail have "\<exists>pre post.
            order = pre @ i # post \<and>
            snd (obs_healthgraph probes order t h) =
              addLog_calls (calls post)
                (addLog (log_ts pe)
                   \<lparr>level = Some ''info'', service = Some (target.name svc),
                    msg = Some (''Healthcheck ok ('' @ show_int (settled pe - started pe) @ ''ms)'')\<rparr>
                   (addLog_calls (calls pre) h)) \<and>
            last (arrays
                (addLog (log_ts pe)
                   \<lparr>level = Some ''info'', service = Some (target.name svc),
                    msg = Some (''Healthcheck ok ('' @ show_int (settled pe - started pe) @ ''ms)'')\<rparr>
                   (addLog_calls (calls pre) h)) logsBuffer) =
              \<lparr>ts = log_ts pe, log_entry.level = ''info'',
               log_entry.service = (if target.name svc = [] then ''gateway'' else target.name svc),
               log_entry.msg = ''Healthcheck ok ('' @ show_int (settled pe - started pe) @ ''ms)''\<rparr>"
    by blast
  with ith show ?thesis unfolding status_of_body by blast
qed

theorem successful_probe_outcome_witness:
  "services (the (fst (obs_healthgraph
       [(\<lparr>target.name = ''a'', baseUrl = ''http://a''\<rparr>,
         \<lparr>started = 1000, response = Resolved (JObject [(''service'', JString ''users-service''),
            (''status'', JString ''ok'')]),
          settled = 1010, log_ts = 1010, check_ts = 1011\<rparr>),
        (\<lparr>target.name = ''b'', baseUrl = ''http://b''\<rparr>,
         \<lparr>started = 1000, response = Rejected ''timeout of 2000ms exceeded'', settled = 3001,
          log_ts = 3001, check_ts = 3002\<rparr>)]
       [0, 1] 3003 initial_heap))) ! 0 =
     \<lparr>health_outcome.name = ''a'', url = ''http://a'', status = JString ''ok'', latencyMs = 10,
      error = None, lastCheck = 1011\<rparr>"
proof -
  let ?a = "\<lparr>target.name = ''a'', baseUrl = ''http://a''\<rparr>"
  let ?pe = "\<lparr>started = 1000, response = Resolved (JObject [(''service'', JString ''users-service''),
            (''status'', JString ''ok'')]),
          settled = 1010, log_ts = 1010, check_ts = 1011\<rparr>"
  let ?b = "(\<lparr>target.name = ''b'', baseUrl = ''http://b''\<rparr>,
         \<lparr>started = 1000, response = Rejected ''timeout of 2000ms exceeded'', settled = 3001,
          log_ts = 3001, check_ts = 3002\<rparr>)"
  have 1: "distinct [0, 1 :: nat]" by simp
  have 2: "set [0, 1 :: nat] = {..<length [(?a, ?pe), ?b]}" by auto
  have 3: "0 < length [(?a, ?pe), ?b]" by simp
  have 4: "[(?a, ?pe), ?b] ! 0 = (?a, ?pe)" by simp
  have 5: "response ?pe = Resolved (JObject [(''service'', JString ''users-service''),
            (''status'', JString ''ok'')])" by simp
  from successful_probe_outcome [OF 1 2 3 4 5, of 3003 initial_heap, THEN conjunct1]
  show ?thesis by simp
qed

theorem falsy_status_reported_unknown_and_unnamed_target_tagged_gateway:
  "fst (obs_healthgraph
       [(\<lparr>target.name = ''a'', baseUrl = ''http://a''\<rparr>,
         \<lparr>started = 1000, response = Resolved (JObject [(''status'', JString '''')]),
          settled = 1010, log_ts = 1010, check_ts = 1011\<rparr>)]
       [0] 1012 initial_heap) =
     Some \<lparr>timestamp = 1012,
           services = [\<lparr>health_outcome.name = ''a'', url = ''http://a'', status = JString ''unknown'',
                        latencyMs = 10, error = None, lastCheck = 1011\<rparr>]\<rparr> \<and>
   fst (obs_healthgraph
       [(\<lparr>target.name = ''a'', baseUrl = ''http://a''\<rparr>,
         \<lparr>started = 1000, response = Resolved (JObject [(''status'', JNumber (Finite 0))]),
          settled = 1010, log_ts = 1010, check_ts = 1011\<rparr>)]
       [0] 1012 initial_heap) =
     Some \<lparr>timestamp = 1012,
           services = [\<lparr>health_outcome.name = ''a'', url = ''http://a'', status = JString ''unknown'',
                        latencyMs = 10, error = None, lastCheck = 1011\<rparr>]\<rparr> \<and>
   arrays (snd (obs_healthgraph
       [(\<lparr>target.name = '''', baseUrl = ''http://a''\<rparr>,
         \<lparr>started = 1000, response = Resolved (JObject [(''status'', JString ''ok'')]),
          settled = 1010, log_ts = 1010, check_ts = 1011\<rparr>)]
       [0] 1012 initial_heap)) logsBuffer =
     [\<lparr>ts = 1010, log_entry.level = ''info'', log_entry.service = ''gateway'',
       log_entry.msg = ''Healthcheck ok (10ms)''\<rparr>]"
  by code_simp

end
